theory Spec2Isabelle
  imports Main
begin

section \<open>Python string primitives used by CRetriever.py\<close>

text \<open>
  Python strings are modelled as \<^typ>\<open>string\<close>: a list of characters, each standing for
  the code point of the same number (the code points below 256).  The white space that
  \<^verbatim>\<open>str.strip\<close>, \<^verbatim>\<open>str.lstrip\<close> and \<^verbatim>\<open>str.rstrip\<close> remove is what
  \<^verbatim>\<open>str.isspace\<close> accepts; among these code points that is 9 to 13, 28 to 32, 133 and 160.
\<close>

definition newline :: char where
  "newline = CHR 0x0A"

definition isspace :: "char \<Rightarrow> bool" where
  "isspace c = (let n = (of_char c :: nat)
                in (9 \<le> n \<and> n \<le> 13) \<or> (28 \<le> n \<and> n \<le> 32) \<or> n = 133 \<or> n = 160)"

definition lstrip :: "string \<Rightarrow> string" where
  "lstrip s = dropWhile isspace s"

definition rstrip :: "string \<Rightarrow> string" where
  "rstrip s = rev (dropWhile isspace (rev s))"

definition strip :: "string \<Rightarrow> string" where
  "strip s = rstrip (lstrip s)"

text \<open>\<^verbatim>\<open>" " * n\<close>\<close>

definition spaces :: "nat \<Rightarrow> string" where
  "spaces n = replicate n CHR '' ''"

text \<open>\<^verbatim>\<open>"\n".join(lines)\<close>\<close>

fun join_nl :: "string list \<Rightarrow> string" where
  "join_nl [] = []"
| "join_nl [l] = l"
| "join_nl (l # ls) = l @ newline # join_nl ls"

text \<open>\<^verbatim>\<open>s.split("\n")\<close>: the pieces between the newlines, never an empty list.\<close>

fun split_nl :: "string \<Rightarrow> string list" where
  "split_nl [] = [[]]"
| "split_nl (c # cs) =
     (if c = newline then [] # split_nl cs
      else (let r = split_nl cs in (c # hd r) # tl r))"

section \<open>The parse tree handed over by BeautifulSoup\<close>

text \<open>
  A child of a BeautifulSoup tree is a \<^verbatim>\<open>NavigableString\<close> or a \<^verbatim>\<open>Tag\<close>.  Comments,
  declarations, doctypes and processing instructions are subclasses of \<^verbatim>\<open>NavigableString\<close>:
  \<^verbatim>\<open>isinstance(node, NavigableString)\<close> holds of them, while \<^verbatim>\<open>get_text\<close> leaves them
  out.  A tag has a name, a dictionary of attributes and its children in document order.
\<close>

datatype string_class = PlainString | CData | Comment | Declaration | Doctype | ProcessingInstruction

datatype node =
    NavigableString string_class string
  | Tag string "string \<rightharpoonup> string" "node list"

text \<open>
  \<^verbatim>\<open>node.get_text(strip=True)\<close>: every plain string below the node, in document order,
  stripped, the empty ones left out, joined with the empty separator.
\<close>

fun all_strings :: "node \<Rightarrow> string list" where
  "all_strings (NavigableString cls s) =
     (if cls = PlainString \<or> cls = CData
      then (let t = strip s in if t = [] then [] else [t])
      else [])"
| "all_strings (Tag name attrs children) = concat (map all_strings children)"

definition get_text :: "node \<Rightarrow> string" where
  "get_text node = concat (all_strings node)"

section \<open>parse_html_to_text\<close>

text \<open>The nested function \<^verbatim>\<open>parse_node(node, indent=0, list_type=None)\<close>, branch by branch.\<close>

function parse_node :: "node \<Rightarrow> nat \<Rightarrow> string option \<Rightarrow> string list" where
  "parse_node (NavigableString cls s) indent list_type =
     (let text = strip s
      in if text \<noteq> [] then [spaces indent @ text] else [])"
| "parse_node (Tag name attrs children) indent list_type =
     (if name = ''ul'' \<or> name = ''ol'' then
        concat (map (\<lambda>child. parse_node child indent (Some name)) children)
      else if name = ''li'' then
        (let bullet = (if list_type \<noteq> Some ''ol'' then ''- '' else ''1. '');
             sublines = concat (map (\<lambda>child. parse_node child (indent + 2) None) children)
         in case sublines of
              [] \<Rightarrow> [spaces indent @ bullet]
            | first # rest \<Rightarrow>
                (spaces indent @ (bullet @ lstrip first))
                # map (\<lambda>line. spaces (indent + 2) @ line) rest)
      else if name = ''a'' then
        (let link_text = get_text (Tag name attrs children);
             link_href = (case attrs ''href'' of None \<Rightarrow> [] | Some h \<Rightarrow> h);
             md_link = (if link_href \<noteq> []
                        then ''['' @ link_text @ '']('' @ link_href @ '')''
                        else link_text)
         in [spaces indent @ md_link])
      else if name = ''br'' then [[]]
      else if name = ''p'' \<or> name = ''div'' then
        (let sublines = concat (map (\<lambda>child. parse_node child indent list_type) children)
         in if sublines \<noteq> [] then sublines @ [[]] else [])
      else concat (map (\<lambda>child. parse_node child indent list_type) children))"
  by pat_completeness auto
termination
  apply (relation "measure (\<lambda>(n, i, l). size n)")
      apply (rule wf_measure)
     apply (simp_all only: in_measure prod.case node.size less_Suc_eq_le
                           size_list_estimation' order_refl add_Suc_right add_0_right One_nat_def)
  done

text \<open>
  The body of \<^verbatim>\<open>parse_html_to_text\<close> after the parse: the lines of the top-level
  children at indent 0 and no list type, the blank ones dropped, the others stripped on
  the right.
\<close>

definition parsed_lines :: "node list \<Rightarrow> string list" where
  "parsed_lines soup = concat (map (\<lambda>element. parse_node element 0 None) soup)"

definition final_lines :: "node list \<Rightarrow> string list" where
  "final_lines soup = map rstrip (filter (\<lambda>line. strip line \<noteq> []) (parsed_lines soup))"

text \<open>
  \<^verbatim>\<open>BeautifulSoup(html_content, "html.parser")\<close> is a library call: it is a parameter
  here, giving the children of the soup or the exception it raises.  The function has no
  handler around it, so an exception of the parser leaves the function.
\<close>

definition parse_html_to_text :: "(string \<Rightarrow> 'e + node list) \<Rightarrow> string \<Rightarrow> 'e + string" where
  "parse_html_to_text BeautifulSoup html_content =
     (case BeautifulSoup html_content of
        Inl e \<Rightarrow> Inl e
      | Inr soup \<Rightarrow> Inr (join_nl (final_lines soup)))"

text \<open>
  What the parser raises when it rejects the markup (\<^verbatim>\<open>bs4.exceptions.ParserRejectedMarkup\<close>);
  used where an instance of the exception type is needed.
\<close>

datatype bs4_exception = ParserRejectedMarkup


section \<open>The bold-marker decoding of create_word_document_in_memory\<close>

text \<open>
  The pattern is \<^verbatim>\<open>re.compile(r"\*\*(.+?)\*\*")\<close>.  The three functions below are
  what the regular-expression engine computes for it.  \<open>close_at\<close> takes the text after
  the first character of the group and finds the nearest closing pair of asterisks that
  is reached over characters other than the newline (the dot does not match a newline,
  and the group is not greedy); it gives the remaining characters of the group and the
  text after the closing pair.  \<open>match_here\<close> matches the pattern at the first position
  of a text: two asterisks, one character that is not a newline, then \<open>close_at\<close>.
  \<open>search\<close> finds the leftmost position with a match and gives the text before the
  match, the group and the text after the match.
\<close>

fun close_at :: "string \<Rightarrow> (string \<times> string) option" where
  "close_at (c # d # cs) =
     (if c = CHR ''*'' \<and> d = CHR ''*'' then Some ([], cs)
      else if c = newline then None
      else map_option (\<lambda>(inner, rest). (c # inner, rest)) (close_at (d # cs)))"
| "close_at cs = None"

fun match_here :: "string \<Rightarrow> (string \<times> string) option" where
  "match_here (a # b # c # cs) =
     (if a = CHR ''*'' \<and> b = CHR ''*'' \<and> c \<noteq> newline
      then map_option (\<lambda>(inner, rest). (c # inner, rest)) (close_at cs)
      else None)"
| "match_here cs = None"

fun search :: "string \<Rightarrow> (string \<times> string \<times> string) option" where
  "search [] = None"
| "search (c # cs) =
     (case match_here (c # cs) of
        Some (inner, rest) \<Rightarrow> Some ([], inner, rest)
      | None \<Rightarrow> map_option (\<lambda>(pre, inner, rest). (c # pre, inner, rest)) (search cs))"

lemma close_at_Some:
  "close_at cs = Some (inner, rest) \<Longrightarrow> cs = inner @ ''**'' @ rest"
  by (induction cs arbitrary: inner rule: close_at.induct) (auto split: if_splits)

lemma match_here_Some:
  "match_here cs = Some (inner, rest) \<Longrightarrow> cs = ''**'' @ inner @ ''**'' @ rest \<and> inner \<noteq> []"
  by (cases cs rule: match_here.cases) (auto split: if_splits dest: close_at_Some)

lemma search_Some:
  "search cs = Some (pre, inner, rest) \<Longrightarrow> cs = pre @ ''**'' @ inner @ ''**'' @ rest \<and> inner \<noteq> []"
  by (induction cs arbitrary: pre) (auto split: option.splits dest: match_here_Some)

lemma search_shorter:
  "search cs = Some (pre, inner, rest) \<Longrightarrow> length rest < length cs"
  by (drule search_Some) simp

text \<open>
  A match object: \<^verbatim>\<open>match.span()\<close> is \<open>(m_start, m_end)\<close> and \<^verbatim>\<open>match.group(1)\<close> is
  \<open>group1\<close>.  \<^verbatim>\<open>finditer\<close> gives the matches from left to right, each search starting
  where the match before it ended; \<open>pos\<close> is the position of the text still to be
  searched within the line.
\<close>

datatype match = Match (m_start: nat) (m_end: nat) (group1: string)

function finditer_at :: "nat \<Rightarrow> string \<Rightarrow> match list" where
  "finditer_at pos txt =
     (case search txt of
        None \<Rightarrow> []
      | Some (pre, inner, rest) \<Rightarrow>
          (let start = pos + length pre; end_pos = start + length inner + 4
           in Match start end_pos inner # finditer_at end_pos rest))"
  by pat_completeness auto
termination
  by (relation "measure (\<lambda>(pos, txt). length txt)") (auto dest: search_shorter)

definition finditer :: "string \<Rightarrow> match list" where
  "finditer line = finditer_at 0 line"

text \<open>The slice \<^verbatim>\<open>s[i:j]\<close> for indices that are not negative.\<close>

definition slice :: "string \<Rightarrow> nat \<Rightarrow> nat \<Rightarrow> string" where
  "slice s i j = take (j - i) (drop i s)"

text \<open>A run of a paragraph: its text and its bold flag.\<close>

datatype run = Run (run_text: string) (run_bold: bool)

text \<open>
  One turn of the loop over the matches of a line.  The state is the runs added to the
  paragraph so far and \<^verbatim>\<open>last_end\<close>.
\<close>

definition add_match :: "string \<Rightarrow> run list \<times> nat \<Rightarrow> match \<Rightarrow> run list \<times> nat" where
  "add_match line st m =
     (case st of (runs, last_end) \<Rightarrow>
        (let normal_text = slice line last_end (m_start m);
             runs1 = (if normal_text \<noteq> [] then runs @ [Run normal_text False] else runs)
         in (runs1 @ [Run (group1 m) True], m_end m)))"

text \<open>The runs of the paragraph that the loop body builds for one line.\<close>

definition decode_line :: "string \<Rightarrow> run list" where
  "decode_line line =
     (case foldl (add_match line) ([], 0) (finditer line) of
        (runs, last_end) \<Rightarrow>
          if last_end < length line then runs @ [Run (drop last_end line) False] else runs)"

text \<open>One paragraph for each line of \<^verbatim>\<open>content_text.split("\n")\<close>.\<close>

definition document_paragraphs :: "string \<Rightarrow> run list list" where
  "document_paragraphs content_text = map decode_line (split_nl content_text)"


text \<open>
  The same loop entered at position \<open>pos\<close> with the runs added so far, \<open>tx\<close> being the
  text of the line from \<open>pos\<close> on; \<open>decode_line\<close> is the loop entered at position 0 with no
  runs.
\<close>

definition loop_from :: "string \<Rightarrow> nat \<Rightarrow> string \<Rightarrow> run list \<Rightarrow> run list" where
  "loop_from line pos tx runs =
     (case foldl (add_match line) (runs, pos) (finditer_at pos tx) of
        (rs, last_end) \<Rightarrow>
          if last_end < length line then rs @ [Run (drop last_end line) False] else rs)"


text \<open>
  The text of a run as the document shows it in the interchange format: a bold run
  between its two markers, any other run as it is.
\<close>

definition rewrap :: "run \<Rightarrow> string" where
  "rewrap r = (if run_bold r then ''**'' @ run_text r @ ''**'' else run_text r)"

text \<open>
  The line with the marker asterisks of every match removed, as
  \<^verbatim>\<open>bold_pattern.sub(r"\1", line)\<close> gives it: the reference for what the texts of the
  runs add up to.
\<close>

function remove_markers :: "string \<Rightarrow> string" where
  "remove_markers line =
     (case search line of
        None \<Rightarrow> line
      | Some (pre, inner, rest) \<Rightarrow> pre @ inner @ remove_markers rest)"
  by pat_completeness auto
termination
  by (relation "measure length") (auto dest: search_shorter)

declare remove_markers.simps [simp del]

section \<open>The loop over the matches, match by match\<close>

declare finditer_at.simps [simp del]

lemma decode_line_loop: "decode_line line = loop_from line 0 line []"
  by (simp add: decode_line_def loop_from_def finditer_def)

lemma loop_from_None:
  "search tx = None \<Longrightarrow>
   loop_from (p @ tx) (length p) tx runs = runs @ (if tx = [] then [] else [Run tx False])"
  by (simp add: loop_from_def finditer_at.simps [of "length p" tx])

lemma loop_from_Some:
  assumes "search tx = Some (pre, inner, rest)"
  shows "loop_from (p @ tx) (length p) tx runs =
         loop_from ((p @ pre @ ''**'' @ inner @ ''**'') @ rest)
                   (length (p @ pre @ ''**'' @ inner @ ''**'')) rest
                   (runs @ (if pre = [] then [] else [Run pre False]) @ [Run inner True])"
proof -
  have eq: "tx = pre @ ''**'' @ inner @ ''**'' @ rest"
    using search_Some [OF assms] by simp
  have pos: "length p + length pre + length inner + 4 = length (p @ pre @ ''**'' @ inner @ ''**'')"
    by simp
  have fi: "finditer_at (length p) tx =
      Match (length p + length pre) (length (p @ pre @ ''**'' @ inner @ ''**'')) inner
      # finditer_at (length (p @ pre @ ''**'' @ inner @ ''**'')) rest"
  proof -
    have "finditer_at (length p) tx =
        Match (length p + length pre) (length p + length pre + length inner + 4) inner
        # finditer_at (length p + length pre + length inner + 4) rest"
      by (subst finditer_at.simps) (simp only: assms option.case prod.case Let_def)
    then show ?thesis by (simp only: pos)
  qed
  have st: "add_match (p @ tx) (runs, length p)
              (Match (length p + length pre) (length (p @ pre @ ''**'' @ inner @ ''**'')) inner)
            = (runs @ (if pre = [] then [] else [Run pre False]) @ [Run inner True],
               length (p @ pre @ ''**'' @ inner @ ''**''))"
    by (simp add: add_match_def slice_def eq)
  have ln: "p @ tx = (p @ pre @ ''**'' @ inner @ ''**'') @ rest"
    by (simp add: eq)
  show ?thesis
    unfolding loop_from_def fi foldl_Cons st
    by (simp only: ln)
qed

lemma loop_from_runs:
  "loop_from (p @ tx) (length p) tx runs = runs @ loop_from tx 0 tx []"
proof (induction "length tx" arbitrary: p tx runs rule: less_induct)
  case less
  show ?case
  proof (cases "search tx")
    case None
    then show ?thesis
      using loop_from_None [of tx p runs] loop_from_None [of tx "[]" "[]"] by simp
  next
    case (Some t)
    then obtain pre inner rest where s: "search tx = Some (pre, inner, rest)"
      by (cases t) auto
    then have sh: "length rest < length tx" by (rule search_shorter)
    let ?R = "(if pre = [] then [] else [Run pre False]) @ [Run inner True]"
    have "loop_from (p @ tx) (length p) tx runs =
          loop_from ((p @ pre @ ''**'' @ inner @ ''**'') @ rest)
                   (length (p @ pre @ ''**'' @ inner @ ''**'')) rest (runs @ ?R)"
      by (rule loop_from_Some [OF s])
    also have "\<dots> = (runs @ ?R) @ loop_from rest 0 rest []"
      by (rule less [OF sh])
    finally have a: "loop_from (p @ tx) (length p) tx runs = (runs @ ?R) @ loop_from rest 0 rest []" .
    have "loop_from ([] @ tx) (length ([] :: string)) tx [] =
          loop_from (([] @ pre @ ''**'' @ inner @ ''**'') @ rest)
                   (length ([] @ pre @ ''**'' @ inner @ ''**'')) rest ([] @ ?R)"
      by (rule loop_from_Some [OF s])
    also have "\<dots> = ([] @ ?R) @ loop_from rest 0 rest []"
      by (rule less [OF sh])
    finally have b: "loop_from tx 0 tx [] = ?R @ loop_from rest 0 rest []" by simp
    show ?thesis by (simp only: a b append_assoc)
  qed
qed

lemma decode_line_unfold:
  "decode_line line =
     (case search line of
        None \<Rightarrow> if line = [] then [] else [Run line False]
      | Some (pre, inner, rest) \<Rightarrow>
          (if pre = [] then [] else [Run pre False]) @ Run inner True # decode_line rest)"
proof (cases "search line")
  case None
  then show ?thesis
    using loop_from_None [of line "[]" "[]"] by (simp add: decode_line_loop)
next
  case (Some t)
  then obtain pre inner rest where s: "search line = Some (pre, inner, rest)"
    by (cases t) auto
  let ?R = "(if pre = [] then [] else [Run pre False]) @ [Run inner True]"
  have "loop_from ([] @ line) (length ([] :: string)) line [] =
        loop_from (([] @ pre @ ''**'' @ inner @ ''**'') @ rest)
                 (length ([] @ pre @ ''**'' @ inner @ ''**'')) rest ([] @ ?R)"
    by (rule loop_from_Some [OF s])
  also have "\<dots> = ([] @ ?R) @ loop_from rest 0 rest []"
    by (rule loop_from_runs)
  finally have "decode_line line = ?R @ decode_line rest"
    by (simp add: decode_line_loop)
  then show ?thesis by (simp add: s)
qed

section \<open>What the pattern matches\<close>

lemma close_at_no_newline:
  "close_at cs = Some (inner, rest) \<Longrightarrow> newline \<notin> set inner"
  by (induction cs arbitrary: inner rule: close_at.induct) (auto split: if_splits)

lemma match_here_no_newline:
  "match_here cs = Some (inner, rest) \<Longrightarrow> newline \<notin> set inner"
  by (cases cs rule: match_here.cases) (auto split: if_splits dest: close_at_no_newline)

lemma search_no_newline:
  "search cs = Some (pre, inner, rest) \<Longrightarrow> newline \<notin> set inner"
  by (induction cs arbitrary: pre) (auto split: option.splits dest: match_here_no_newline)

lemma close_at_complete:
  "newline \<notin> set inner \<Longrightarrow> close_at (inner @ ''**'' @ rest) \<noteq> None"
proof (induction inner)
  case Nil
  then show ?case by simp
next
  case (Cons c cs)
  obtain d ds where e: "cs @ ''**'' @ rest = d # ds"
    by (cases "cs @ ''**'' @ rest") auto
  from Cons have "close_at (cs @ ''**'' @ rest) \<noteq> None" by simp
  then have n: "close_at (d # ds) \<noteq> None" unfolding e .
  from Cons.prems have c: "c \<noteq> newline" by auto
  have l: "(c # cs) @ ''**'' @ rest = c # d # ds" using e by simp
  show ?case unfolding l using n c by auto
qed

lemma match_here_complete:
  assumes "inner \<noteq> []" "newline \<notin> set inner"
  shows "match_here (''**'' @ inner @ ''**'' @ rest) \<noteq> None"
proof -
  from assms obtain c cs where i: "inner = c # cs" by (cases inner) auto
  with assms have "c \<noteq> newline" "newline \<notin> set cs" by auto
  then show ?thesis using close_at_complete [of cs rest] by (auto simp: i)
qed

lemma search_complete:
  assumes "inner \<noteq> []" "newline \<notin> set inner"
  shows "search (pre @ ''**'' @ inner @ ''**'' @ rest) \<noteq> None"
proof (induction pre)
  case Nil
  show ?case using match_here_complete [OF assms, of rest] by (auto split: option.splits)
next
  case (Cons c pre)
  then show ?case by (auto split: option.splits)
qed

lemma search_None_iff:
  "search line = None \<longleftrightarrow>
   \<not> (\<exists>pre inner rest. line = pre @ ''**'' @ inner @ ''**'' @ rest
                          \<and> inner \<noteq> [] \<and> newline \<notin> set inner)"
proof
  assume "search line = None"
  then show "\<not> (\<exists>pre inner rest. line = pre @ ''**'' @ inner @ ''**'' @ rest
                          \<and> inner \<noteq> [] \<and> newline \<notin> set inner)"
    using search_complete by blast
next
  assume n: "\<not> (\<exists>pre inner rest. line = pre @ ''**'' @ inner @ ''**'' @ rest
                          \<and> inner \<noteq> [] \<and> newline \<notin> set inner)"
  show "search line = None"
  proof (cases "search line")
    case None then show ?thesis .
  next
    case (Some t)
    obtain pre inner rest where "t = (pre, inner, rest)" by (cases t) auto
    with Some n search_Some [of line pre inner rest] search_no_newline [of line pre inner rest]
    show ?thesis by blast
  qed
qed

section \<open>The runs of a line\<close>

lemma decode_line_texts:
  "concat (map run_text (decode_line line)) = remove_markers line"
proof (induction "length line" arbitrary: line rule: less_induct)
  case less
  show ?case
  proof (cases "search line")
    case None
    then show ?thesis
      by (subst decode_line_unfold, subst remove_markers.simps) simp
  next
    case (Some t)
    then obtain pre inner rest where s: "search line = Some (pre, inner, rest)"
      by (cases t) auto
    have "concat (map run_text (decode_line rest)) = remove_markers rest"
      using less [OF search_shorter [OF s]] .
    then show ?thesis
      by (subst decode_line_unfold, subst remove_markers.simps) (simp add: s)
  qed
qed

lemma decode_line_nonempty_runs:
  "r \<in> set (decode_line line) \<Longrightarrow> run_text r \<noteq> []"
proof (induction "length line" arbitrary: line rule: less_induct)
  case less
  show ?case
  proof (cases "search line")
    case None
    with less.prems show ?thesis
      by (subst (asm) decode_line_unfold) (auto split: if_splits)
  next
    case (Some t)
    then obtain pre inner rest where s: "search line = Some (pre, inner, rest)"
      by (cases t) auto
    from less.prems have "r \<in> set ((if pre = [] then [] else [Run pre False]) @ Run inner True # decode_line rest)"
      by (subst (asm) decode_line_unfold) (simp add: s)
    then show ?thesis
      using less.hyps [OF search_shorter [OF s]] search_Some [OF s]
      by (auto split: if_splits)
  qed
qed

section \<open>Claims about the bold-marker decoding\<close>

text \<open>
  C3, as the code has it.  The decoding of a line follows the leftmost match: with no
  match the whole line is one run that is not bold, unless the line is empty, which gets
  no run at all (the guard \<^verbatim>\<open>last_end < len(line)\<close>); with a match, the text before it
  is a run that is not bold if it is not empty, the group is a bold run, and the
  decoding goes on behind the match.  No run has an empty text, the texts of the runs
  in order are the line with the marker asterisks removed, and the line
  \<^verbatim>\<open>Hello **world** today\<close> gives the three runs of the specification.
\<close>

theorem decode_line_contract:
  "decode_line line =
     (case search line of
        None \<Rightarrow> if line = [] then [] else [Run line False]
      | Some (pre, inner, rest) \<Rightarrow>
          (if pre = [] then [] else [Run pre False]) @ Run inner True # decode_line rest)
   \<and> (\<forall>r \<in> set (decode_line line). run_text r \<noteq> [])
   \<and> concat (map run_text (decode_line line)) = remove_markers line
   \<and> decode_line ''Hello **world** today'' =
       [Run ''Hello '' False, Run ''world'' True, Run '' today'' False]"
proof (intro conjI)
  show "decode_line line =
     (case search line of
        None \<Rightarrow> if line = [] then [] else [Run line False]
      | Some (pre, inner, rest) \<Rightarrow>
          (if pre = [] then [] else [Run pre False]) @ Run inner True # decode_line rest)"
    by (rule decode_line_unfold)
  show "\<forall>r \<in> set (decode_line line). run_text r \<noteq> []"
    using decode_line_nonempty_runs by blast
  show "concat (map run_text (decode_line line)) = remove_markers line"
    by (rule decode_line_texts)
  show "decode_line ''Hello **world** today'' =
       [Run ''Hello '' False, Run ''world'' True, Run '' today'' False]"
    by (simp add: decode_line_unfold newline_def)
qed

theorem decode_line_contract_witness:
  "decode_line ''a**b**'' = [Run ''a'' False, Run ''b'' True]
   \<and> concat (map run_text (decode_line ''a**b**'')) = ''ab''
   \<and> remove_markers ''a**b**'' = ''ab''"
  using decode_line_contract [of "''a**b**''"]
  by (simp add: decode_line_unfold remove_markers.simps newline_def)

text \<open>
  C3 as the specification states it fails on the empty line: it has no match, and the
  paragraph gets no run, not one run with the empty text.
\<close>

theorem empty_line_no_run:
  "search [] = None \<and> decode_line [] = [] \<and> decode_line [] \<noteq> [Run [] False]"
  by (simp add: decode_line_unfold)

text \<open>
  C6.  A line that is not empty and in which no two asterisks, one or more characters
  and two asterisks follow each other (as in \<^verbatim>\<open>**unterminated\<close>) is decoded to exactly
  one run: the whole line with its asterisks, not bold.
\<close>

theorem unmatched_marker_is_literal:
  assumes "\<not> (\<exists>pre inner rest. line = pre @ ''**'' @ inner @ ''**'' @ rest
                  \<and> inner \<noteq> [] \<and> newline \<notin> set inner)"
    and "line \<noteq> []"
  shows "decode_line line = [Run line False]"
proof -
  from assms(1) have "search line = None" using search_None_iff [of line] by blast
  with assms(2) show ?thesis by (subst decode_line_unfold) simp
qed

theorem unmatched_marker_is_literal_witness:
  "decode_line ''**unterminated'' = [Run ''**unterminated'' False]"
proof -
  have "search ''**unterminated'' = None" by (simp add: newline_def)
  then have "\<not> (\<exists>pre inner rest. ''**unterminated'' = pre @ ''**'' @ inner @ ''**'' @ rest
                  \<and> inner \<noteq> [] \<and> newline \<notin> set inner)"
    using search_None_iff [of "''**unterminated''"] by blast
  then show ?thesis by (rule unmatched_marker_is_literal) simp
qed

text \<open>
  C10.  The decoding loses nothing: putting the two markers back around the text of
  every bold run, leaving the other runs as they are, and joining the runs in order
  gives the line back, character for character.
\<close>

theorem decode_line_lossless:
  "concat (map rewrap (decode_line line)) = line"
proof (induction "length line" arbitrary: line rule: less_induct)
  case less
  show ?case
  proof (cases "search line")
    case None
    then show ?thesis by (subst decode_line_unfold) (simp add: rewrap_def)
  next
    case (Some t)
    then obtain pre inner rest where s: "search line = Some (pre, inner, rest)"
      by (cases t) auto
    have "concat (map rewrap (decode_line rest)) = rest"
      using less [OF search_shorter [OF s]] .
    moreover have "decode_line line =
        (if pre = [] then [] else [Run pre False]) @ Run inner True # decode_line rest"
      by (subst decode_line_unfold) (simp add: s)
    ultimately show ?thesis
      using search_Some [OF s] by (simp add: rewrap_def)
  qed
qed

section \<open>Stripping, and the branch of a list item\<close>

lemma dropWhile_all: "(\<forall>x \<in> set (dropWhile P s). P x) \<longleftrightarrow> (\<forall>x \<in> set s. P x)"
  by (induction s) auto

lemma strip_eq_Nil_iff: "strip s = [] \<longleftrightarrow> (\<forall>c \<in> set s. isspace c)"
  by (simp add: strip_def rstrip_def lstrip_def dropWhile_all)

lemma not_blank: "c \<in> set s \<Longrightarrow> \<not> isspace c \<Longrightarrow> strip s \<noteq> []"
  by (auto simp: strip_eq_Nil_iff)


lemma rstrip_snoc_space: "isspace c \<Longrightarrow> rstrip (s @ [c]) = rstrip s"
  by (simp add: rstrip_def)

lemma parse_node_li:
  "parse_node (Tag ''li'' attrs children) indent list_type =
     (case concat (map (\<lambda>child. parse_node child (indent + 2) None) children) of
        [] \<Rightarrow> [spaces indent @ (if list_type \<noteq> Some ''ol'' then ''- '' else ''1. '')]
      | first # rest \<Rightarrow>
          (spaces indent @ (if list_type \<noteq> Some ''ol'' then ''- '' else ''1. '') @ lstrip first)
          # map (\<lambda>line. spaces (indent + 2) @ line) rest)"
  by (simp add: Let_def cong: list.case_cong)

lemmas eval_defs = parse_html_to_text_def final_lines_def parsed_lines_def get_text_def
  strip_def lstrip_def rstrip_def isspace_def spaces_def newline_def Let_def

lemma li_cases:
  "parse_node (Tag ''li'' attrs children) indent list_type =
     (case sub of
        [] \<Rightarrow> [spaces indent @ (if list_type \<noteq> Some ''ol'' then ''- '' else ''1. '')]
      | first # rest \<Rightarrow>
          (spaces indent @ (if list_type \<noteq> Some ''ol'' then ''- '' else ''1. '') @ lstrip first)
          # map (\<lambda>line. spaces (indent + 2) @ line) rest)"
  if "sub = concat (map (\<lambda>child. parse_node child (indent + 2) None) children)"
  unfolding that by (rule parse_node_li)

lemma strip_bullet:
  "strip (spaces indent @ (if list_type \<noteq> Some ''ol'' then ''- '' else ''1. '') @ s) \<noteq> []"
  by (simp add: strip_eq_Nil_iff isspace_def)

lemma rstrip_bullet:
  "rstrip (spaces indent @ (if list_type \<noteq> Some ''ol'' then ''- '' else ''1. ''))
   = spaces indent @ (if list_type \<noteq> Some ''ol'' then ''-'' else ''1.'')"
  by (simp add: rstrip_def isspace_def spaces_def)

section \<open>The first and the last character of the output\<close>





























section \<open>Claims about the normalizer\<close>

text \<open>
  C8.  The \<^verbatim>\<open>a\<close> branch of \<^verbatim>\<open>parse_node\<close> emits exactly one line: at the current
  indent, the visible text of the link wrapped as \<^verbatim>\<open>[text](href)\<close> when the \<^verbatim>\<open>href\<close>
  attribute is present and not empty, and the visible text alone otherwise.  For the
  tree of \<^verbatim>\<open><a href="http://x">click</a>\<close> the output of \<^verbatim>\<open>parse_html_to_text\<close> is the
  single line \<^verbatim>\<open>[click](http://x)\<close>.
\<close>

theorem a_element_one_line:
  "parse_node (Tag ''a'' attrs children) indent list_type =
     [spaces indent @
      (case attrs ''href'' of
         None \<Rightarrow> get_text (Tag ''a'' attrs children)
       | Some href \<Rightarrow>
           if href = [] then get_text (Tag ''a'' attrs children)
           else ''['' @ get_text (Tag ''a'' attrs children) @ '']('' @ href @ '')'')]
   \<and> (BeautifulSoup html_content =
          Inr [Tag ''a'' [''href'' \<mapsto> ''http://x''] [NavigableString PlainString ''click'']]
        \<longrightarrow> parse_html_to_text BeautifulSoup html_content = Inr ''[click](http://x)'')"
  by (simp add: Let_def parse_html_to_text_def final_lines_def parsed_lines_def get_text_def
        strip_def lstrip_def rstrip_def isspace_def spaces_def split: option.splits)

theorem a_element_one_line_witness:
  "parse_html_to_text
     (\<lambda>html. Inr [Tag ''a'' [''href'' \<mapsto> ''http://x''] [NavigableString PlainString ''click'']])
     (''<a href='' @ [CHR 0x22] @ ''http://x'' @ [CHR 0x22] @ ''>click</a>'')
   = (Inr ''[click](http://x)'' :: unit + string)"
  using a_element_one_line
    [of "[''href'' \<mapsto> ''http://x'']" "[NavigableString PlainString ''click'']" 0 None
        "\<lambda>html. Inr [Tag ''a'' [''href'' \<mapsto> ''http://x''] [NavigableString PlainString ''click'']]"
        "''<a href='' @ [CHR 0x22] @ ''http://x'' @ [CHR 0x22] @ ''>click</a>''"]
  by simp

text \<open>
  C5.  The first line of a list item is its indent, the bullet and the first subline
  without its leading white space (or the bullet alone when there is no subline).  The
  bullet is \<^verbatim>\<open>"- "\<close> unless the list type handed down is \<^verbatim>\<open>ol\<close>, and then it is the
  literal \<^verbatim>\<open>"1. "\<close>: \<^verbatim>\<open>parse_node\<close> has no position or counter among its arguments.  For
  the tree of \<^verbatim>\<open><ul><li>A</li><li>B</li></ul>\<close> the output is the two lines \<^verbatim>\<open>- A\<close> and
  \<^verbatim>\<open>- B\<close>, for \<^verbatim>\<open><ol><li>First</li></ol>\<close> the one line \<^verbatim>\<open>1. First\<close>, and two items of an
  \<^verbatim>\<open>ol\<close> both start with \<^verbatim>\<open>1.\<close>
\<close>

theorem li_bullet_prefix:
  "hd (parse_node (Tag ''li'' attrs children) indent list_type) =
     spaces indent @ (if list_type \<noteq> Some ''ol'' then ''- '' else ''1. '')
     @ (case concat (map (\<lambda>child. parse_node child (indent + 2) None) children) of
          [] \<Rightarrow> [] | first # rest \<Rightarrow> lstrip first)
   \<and> (BeautifulSoup html_content =
          Inr [Tag ''ul'' Map.empty
                 [Tag ''li'' Map.empty [NavigableString PlainString ''A''],
                  Tag ''li'' Map.empty [NavigableString PlainString ''B'']]]
        \<longrightarrow> parse_html_to_text BeautifulSoup html_content = Inr (''- A'' @ [newline] @ ''- B''))
   \<and> (BeautifulSoup html_content =
          Inr [Tag ''ol'' Map.empty [Tag ''li'' Map.empty [NavigableString PlainString ''First'']]]
        \<longrightarrow> parse_html_to_text BeautifulSoup html_content = Inr ''1. First'')
   \<and> (BeautifulSoup html_content =
          Inr [Tag ''ol'' Map.empty
                 [Tag ''li'' Map.empty [NavigableString PlainString ''A''],
                  Tag ''li'' Map.empty [NavigableString PlainString ''B'']]]
        \<longrightarrow> parse_html_to_text BeautifulSoup html_content = Inr (''1. A'' @ [newline] @ ''1. B''))"
proof (intro conjI impI)
  show "hd (parse_node (Tag ''li'' attrs children) indent list_type) =
     spaces indent @ (if list_type \<noteq> Some ''ol'' then ''- '' else ''1. '')
     @ (case concat (map (\<lambda>child. parse_node child (indent + 2) None) children) of
          [] \<Rightarrow> [] | first # rest \<Rightarrow> lstrip first)"
  proof -
    define sub where "sub = concat (map (\<lambda>child. parse_node child (indent + 2) None) children)"
    have eq: "parse_node (Tag ''li'' attrs children) indent list_type =
       (case sub of
          [] \<Rightarrow> [spaces indent @ (if list_type \<noteq> Some ''ol'' then ''- '' else ''1. '')]
        | first # rest \<Rightarrow>
            (spaces indent @ (if list_type \<noteq> Some ''ol'' then ''- '' else ''1. '') @ lstrip first)
            # map (\<lambda>line. spaces (indent + 2) @ line) rest)"
      unfolding sub_def by (rule parse_node_li)
    show ?thesis
      unfolding sub_def [symmetric] eq by (cases sub) simp_all
  qed
qed (simp_all add: eval_defs)

theorem li_bullet_prefix_witness:
  "parse_html_to_text
     (\<lambda>html. Inr [Tag ''ul'' Map.empty
                 [Tag ''li'' Map.empty [NavigableString PlainString ''A''],
                  Tag ''li'' Map.empty [NavigableString PlainString ''B'']]])
     ''<ul><li>A</li><li>B</li></ul>''
   = (Inr (''- A'' @ [newline] @ ''- B'') :: unit + string)"
  using li_bullet_prefix
    [of Map.empty "[]" 0 None
        "\<lambda>html. Inr [Tag ''ul'' Map.empty
                 [Tag ''li'' Map.empty [NavigableString PlainString ''A''],
                  Tag ''li'' Map.empty [NavigableString PlainString ''B'']]]"
        "''<ul><li>A</li><li>B</li></ul>''"]
  by simp

text \<open>
  C7.  A list item always emits a line, and its first line is never blank, so the
  filter of \<^verbatim>\<open>parse_html_to_text\<close> keeps it.  When the children give no subline, the
  item is the single line made of the indent and the bullet, which the final stripping
  on the right turns into the indent and \<^verbatim>\<open>-\<close> or \<^verbatim>\<open>1.\<close>
\<close>

theorem li_emits_a_line:
  "parse_node (Tag ''li'' attrs children) indent list_type \<noteq> []
   \<and> strip (hd (parse_node (Tag ''li'' attrs children) indent list_type)) \<noteq> []
   \<and> (concat (map (\<lambda>child. parse_node child (indent + 2) None) children) = [] \<longrightarrow>
        parse_node (Tag ''li'' attrs children) indent list_type =
          [spaces indent @ (if list_type \<noteq> Some ''ol'' then ''- '' else ''1. '')]
        \<and> map rstrip (filter (\<lambda>line. strip line \<noteq> [])
                         (parse_node (Tag ''li'' attrs children) indent list_type)) =
          [spaces indent @ (if list_type \<noteq> Some ''ol'' then ''-'' else ''1.'')])"
proof -
  define sub where "sub = concat (map (\<lambda>child. parse_node child (indent + 2) None) children)"
  note eq = li_cases [OF sub_def, of attrs list_type]
  show ?thesis
    unfolding sub_def [symmetric] eq
    using strip_bullet [of indent list_type "[]"] strip_bullet [of indent list_type]
          rstrip_bullet [of indent list_type]
    by (cases sub) simp_all
qed

theorem li_emits_a_line_witness:
  "final_lines [Tag ''li'' Map.empty [NavigableString PlainString ''  '']] = [''-'']"
  using li_emits_a_line [of Map.empty "[NavigableString PlainString ''  '']" 0 None]
  by (simp add: eval_defs)


text \<open>
  C2 on the code.  The children of a list item are parsed at \<open>indent + 2\<close>, so their
  lines carry that indentation already.  The first subline loses it before the bullet is
  put in front; every later subline keeps it and gets \<open>indent + 2\<close> further spaces in
  front.  For the tree of \<^verbatim>\<open><ul><li>A<ul><li>B</li></ul></li></ul>\<close> the inner bullet
  stands behind four spaces, not two, and with a third level the bullets stand behind
  0, 4 and 10 spaces.
\<close>

theorem nested_list_double_indent:
  "parse_html_to_text
     (\<lambda>html. Inr [Tag ''ul'' Map.empty
                 [Tag ''li'' Map.empty
                    [NavigableString PlainString ''A'',
                     Tag ''ul'' Map.empty [Tag ''li'' Map.empty [NavigableString PlainString ''B'']]]]])
     ''<ul><li>A<ul><li>B</li></ul></li></ul>''
   = (Inr (''- A'' @ [newline] @ ''    - B'') :: unit + string)
   \<and> parse_html_to_text
     (\<lambda>html. Inr [Tag ''ul'' Map.empty
                 [Tag ''li'' Map.empty
                    [NavigableString PlainString ''A'',
                     Tag ''ul'' Map.empty
                       [Tag ''li'' Map.empty
                          [NavigableString PlainString ''B'',
                           Tag ''ul'' Map.empty
                             [Tag ''li'' Map.empty [NavigableString PlainString ''C'']]]]]]])
     ''<ul><li>A<ul><li>B<ul><li>C</li></ul></li></ul></li></ul>''
   = (Inr (''- A'' @ [newline] @ ''    - B'' @ [newline] @ ''          - C'') :: unit + string)"
  by (simp add: eval_defs)

text \<open>
  C9 on the code.  \<^verbatim>\<open>parse_html_to_text\<close> has no \<^verbatim>\<open>try\<close> around the parse or the
  traversal: when the parser raises, the exception is the outcome of the function, not
  the empty string.
\<close>

theorem parser_error_propagates:
  "parse_html_to_text (\<lambda>html. Inl ParserRejectedMarkup) ''<![x y]>''
     = (Inl ParserRejectedMarkup :: bs4_exception + string)
   \<and> parse_html_to_text (\<lambda>html. Inl ParserRejectedMarkup) ''<![x y]>''
     \<noteq> (Inr [] :: bs4_exception + string)"
  by (simp add: parse_html_to_text_def)

text \<open>
  C1 at a text node that holds an empty line between two words: the node is one entry
  of the list of lines, the filter keeps it because it is not blank as a whole, and the
  output has an empty second line.
\<close>

theorem text_node_blank_line_survives:
  "parse_html_to_text
     (\<lambda>html. Inr [NavigableString PlainString (''A'' @ [newline, newline] @ ''B'')])
     (''A'' @ [newline, newline] @ ''B'')
   = (Inr (''A'' @ [newline, newline] @ ''B'') :: unit + string)
   \<and> split_nl (''A'' @ [newline, newline] @ ''B'') = [''A'', [], ''B'']"
  by (simp add: eval_defs)



end
